theory Spec2Isabelle
  imports Main "HOL-Library.Word"
begin

section \<open>The task queue of \<open>server/supabase_schema.sql\<close>\<close>

text \<open>
  The table \<open>task_queue\<close> (lines 70 to 81 of the schema). A row is a record with one
  field per column. A column declared without \<open>NOT NULL\<close> may hold SQL \<open>NULL\<close> and
  is an \<open>option\<close>; the primary key \<open>id\<close> and the three \<open>NOT NULL\<close> columns are not.
  \<open>INT\<close> is PostgreSQL's 32-bit signed integer (a 32-bit word read in two's complement by
  \<open>sint\<close> and compared by \<open><s\<close>), \<open>TIMESTAMP WITH TIME ZONE\<close> a point on a
  linearly ordered time axis (microseconds, an integer), \<open>UUID\<close> a 128-bit number,
  \<open>VARCHAR\<close>, \<open>TEXT\<close> and \<open>JSONB\<close> values are kept as strings.
  The column \<open>id\<close> is the field \<open>task_id\<close>, since \<open>id\<close> is HOL's identity function.
\<close>

type_synonym uuid = nat
type_synonym timestamptz = int
type_synonym int4 = "32 word"

record task =
  task_id :: uuid
  task_type :: string
  payload :: string
  status :: string
  attempts :: "int4 option"
  max_attempts :: "int4 option"
  error_message :: "string option"
  created_at :: "timestamptz option"
  started_at :: "timestamptz option"
  completed_at :: "timestamptz option"

text \<open>
  The table is the list of its rows, in the order a sequential scan meets them.
  \<open>PRIMARY KEY\<close> on \<open>id\<close>: no two rows share an id.
\<close>

type_synonym task_queue = "task list"

definition primary_key :: "task_queue \<Rightarrow> bool" where
  "primary_key tbl = distinct (map task_id tbl)"

subsection \<open>Inserting a row: the column defaults\<close>

text \<open>
  An \<open>INSERT\<close> names some columns and leaves the others out. A column left out takes
  its \<open>DEFAULT\<close> (\<open>NULL\<close> when the table declares none); a column named takes the value
  given, which for a nullable column may be \<open>NULL\<close>. \<open>task_type\<close> and \<open>payload\<close> are
  \<open>NOT NULL\<close> without a default, so every insert that succeeds supplies them.
  \<open>gen_random_uuid()\<close> and \<open>NOW()\<close> are read from the environment: they are the
  arguments \<open>fresh\<close> and \<open>now\<close>.
\<close>

datatype 'a column = Omitted | Given 'a

fun column_value :: "'a \<Rightarrow> 'a column \<Rightarrow> 'a" where
  "column_value dflt Omitted = dflt"
| "column_value dflt (Given v) = v"

record task_insert =
  ins_id :: "uuid column"
  ins_task_type :: string
  ins_payload :: string
  ins_status :: "string column"
  ins_attempts :: "int4 option column"
  ins_max_attempts :: "int4 option column"
  ins_error_message :: "string option column"
  ins_created_at :: "timestamptz option column"
  ins_started_at :: "timestamptz option column"
  ins_completed_at :: "timestamptz option column"

datatype sql_error = UniqueViolation | StringDataRightTruncation

text \<open>
  Storing a string in a \<open>VARCHAR(n)\<close> column: a string longer than \<open>n\<close> is an
  error, unless all that exceeds \<open>n\<close> is spaces, which are then cut off.
\<close>

definition varchar :: "nat \<Rightarrow> string \<Rightarrow> sql_error + string" where
  "varchar n s =
     (if length s \<le> n then Inr s
      else if list_all (\<lambda>c. c = CHR '' '') (drop n s) then Inr (take n s)
      else Inl StringDataRightTruncation)"

text \<open>The row an insert builds: \<open>task_type\<close> is \<open>VARCHAR(100)\<close>, \<open>status\<close> \<open>VARCHAR(50)\<close>.\<close>

definition new_task :: "uuid \<Rightarrow> timestamptz \<Rightarrow> task_insert \<Rightarrow> sql_error + task" where
  "new_task fresh now i =
     (case varchar 100 (ins_task_type i) of
        Inl e \<Rightarrow> Inl e
      | Inr ty \<Rightarrow>
         (case varchar 50 (column_value ''pending'' (ins_status i)) of
            Inl e \<Rightarrow> Inl e
          | Inr st \<Rightarrow>
              Inr \<lparr> task_id = column_value fresh (ins_id i),
                    task_type = ty,
                    payload = ins_payload i,
                    status = st,
                    attempts = column_value (Some 0) (ins_attempts i),
                    max_attempts = column_value (Some 3) (ins_max_attempts i),
                    error_message = column_value None (ins_error_message i),
                    created_at = column_value (Some now) (ins_created_at i),
                    started_at = column_value None (ins_started_at i),
                    completed_at = column_value None (ins_completed_at i) \<rparr>))"

text \<open>
  The least insert the table accepts, \<open>INSERT INTO task_queue (task_type, payload)\<close>:
  only the two columns without a default are named.
\<close>

definition enqueue_columns :: "string \<Rightarrow> string \<Rightarrow> task_insert" where
  "enqueue_columns ty pl =
     \<lparr> ins_id = Omitted, ins_task_type = ty, ins_payload = pl, ins_status = Omitted,
       ins_attempts = Omitted, ins_max_attempts = Omitted, ins_error_message = Omitted,
       ins_created_at = Omitted, ins_started_at = Omitted, ins_completed_at = Omitted \<rparr>"

text \<open>
  The insert fails on a duplicate primary key; otherwise the row is added to the table.
\<close>

definition insert_task ::
  "uuid \<Rightarrow> timestamptz \<Rightarrow> task_insert \<Rightarrow> task_queue \<Rightarrow> sql_error + task_queue" where
  "insert_task fresh now i tbl =
     (case new_task fresh now i of
        Inl e \<Rightarrow> Inl e
      | Inr r \<Rightarrow>
          if task_id r \<in> set (map task_id tbl) then Inl UniqueViolation
          else Inr (tbl @ [r]))"

subsection \<open>\<open>claim_next_task\<close>\<close>

text \<open>
  The \<open>WHERE\<close> clause of the \<open>SELECT\<close> (lines 95 and 96). A comparison with \<open>NULL\<close>
  is not true, so a row whose \<open>attempts\<close> or \<open>max_attempts\<close> is \<open>NULL\<close> is not selected.
\<close>

definition attempts_left :: "task \<Rightarrow> bool" where
  "attempts_left r =
     (case attempts r of
        None \<Rightarrow> False
      | Some a \<Rightarrow> (case max_attempts r of None \<Rightarrow> False | Some m \<Rightarrow> a <s m))"

definition claimable :: "task \<Rightarrow> bool" where
  "claimable r = (status r = ''pending'' \<and> attempts_left r)"

text \<open>
  \<open>ORDER BY created_at ASC\<close>: ascending, and PostgreSQL sorts \<open>NULL\<close> after every
  value. \<open>created_le a b\<close> says that a row created at \<open>a\<close> may stand before one created
  at \<open>b\<close>.
\<close>

fun created_le :: "timestamptz option \<Rightarrow> timestamptz option \<Rightarrow> bool" where
  "created_le _ None = True"
| "created_le None (Some _) = False"
| "created_le (Some a) (Some b) = (a \<le> b)"

text \<open>
  \<open>LIMIT 1\<close> of the sorted rows: a row that no other row precedes. Among rows with
  the same \<open>created_at\<close> PostgreSQL promises no order; the model takes the one the scan
  meets first.
\<close>

fun oldest :: "task list \<Rightarrow> task option" where
  "oldest [] = None"
| "oldest (r # rs) =
     (case oldest rs of
        None \<Rightarrow> Some r
      | Some r' \<Rightarrow> if created_le (created_at r) (created_at r') then Some r else Some r')"

text \<open>
  \<open>FOR UPDATE SKIP LOCKED\<close>: a row that another transaction holds locked is passed
  over, not waited for. Which rows are locked is a fact of the environment at the time of
  the call: the set \<open>locked\<close> of their ids. A caller alone on the table has
  \<open>locked = {}\<close>.
\<close>

definition select_next :: "uuid set \<Rightarrow> task_queue \<Rightarrow> task option" where
  "select_next locked tbl =
     oldest (filter (\<lambda>r. claimable r \<and> task_id r \<notin> locked) tbl)"

text \<open>
  The \<open>UPDATE\<close> of lines 102 to 106, on every row with the selected id. \<open>attempts + 1\<close>
  of \<open>NULL\<close> is \<open>NULL\<close>. On 32-bit overflow PostgreSQL raises an error where the word
  addition wraps; lemma \<open>sless_succ_no_overflow\<close> below shows that the row selected
  never overflows.
\<close>

definition mark_processing :: "timestamptz \<Rightarrow> task \<Rightarrow> task" where
  "mark_processing now r =
     r\<lparr> status := ''processing'',
        started_at := Some now,
        attempts := map_option (\<lambda>a. a + 1) (attempts r) \<rparr>"

definition update_where_id :: "uuid \<Rightarrow> timestamptz \<Rightarrow> task_queue \<Rightarrow> task_queue" where
  "update_where_id i now tbl =
     map (\<lambda>r. if task_id r = i then mark_processing now r else r) tbl"

text \<open>
  The function (lines 88 to 111). It returns the table after the call and the value of
  the variable \<open>next_task\<close>: \<open>None\<close> is the all-\<open>NULL\<close> row of a \<open>SELECT INTO\<close> that
  found nothing. \<open>next_task\<close> is assigned once, by the \<open>SELECT\<close>, before the
  \<open>UPDATE\<close>, and is returned as it was assigned.
\<close>

definition claim_next_task ::
  "uuid set \<Rightarrow> timestamptz \<Rightarrow> task_queue \<Rightarrow> task_queue \<times> task option" where
  "claim_next_task locked now tbl =
     (case select_next locked tbl of
        None \<Rightarrow> (tbl, None)
      | Some next_task \<Rightarrow> (update_where_id (task_id next_task) now tbl, Some next_task))"

text \<open>
  A run of calls, one after the other, each with its own lock set and clock reading. The
  result is the final table and what each call returned, in order.
\<close>

fun claim_calls ::
  "(uuid set \<times> timestamptz) list \<Rightarrow> task_queue \<Rightarrow> task_queue \<times> task option list" where
  "claim_calls [] tbl = (tbl, [])"
| "claim_calls ((locked, now) # cs) tbl =
     (let (tbl1, res) = claim_next_task locked now tbl;
          (tbl2, ress) = claim_calls cs tbl1
      in (tbl2, res # ress))"

text \<open>The tasks that a run of calls returned, in order.\<close>

fun returned :: "task option list \<Rightarrow> task list" where
  "returned [] = []"
| "returned (None # rs) = returned rs"
| "returned (Some t # rs) = t # returned rs"

text \<open>No row with the id \<open>i\<close> is pending.\<close>

definition none_pending :: "uuid \<Rightarrow> task_queue \<Rightarrow> bool" where
  "none_pending i tbl = list_all (\<lambda>r. task_id r = i \<longrightarrow> status r \<noteq> ''pending'') tbl"

section \<open>The job record and its state machine\<close>

text \<open>
  The statuses of a job: the seven literals of \<open>Demo['status']\<close> in
  \<open>services/demo.ts\<close> (line 10) and the Status Values of \<open>API_SPEC.md\<close>, which are
  the statuses of section 3 of the specification.
\<close>

datatype job_status = Pending | Recording | Processing | Generating | Sending | Completed | Failed


text \<open>
  Modelled from the spec: the orchestrator, the worker code that writes a job's row after
  each stage outcome, is not among the sources (the schema declares the table \<open>demos\<close>,
  the server's documents name the statuses and the front end reads the rows). The record
  is the Job of section 3 of the specification, field for field; \<open>status\<close> is
  \<open>job_status\<close> here and \<open>created_at\<close> is \<open>job_created_at\<close>, the task row having
  taken those names. \<open>short_video_refs\<close> is the column \<open>short_video_urls\<close> of \<open>demos\<close>.
\<close>

record job =
  job_id :: uuid
  owner :: string
  source_url :: string
  instructions :: "string option"
  job_status :: job_status
  long_video_ref :: "string option"
  short_video_refs :: "string list"
  error_detail :: "string option"
  job_created_at :: timestamptz
  updated_at :: timestamptz










section \<open>The front end's handlers\<close>

text \<open>
  A handler of a React component runs on the values its closure captured at render time
  (\<open>productUrl\<close>, \<open>description\<close>, \<open>user\<close>, \<open>demos\<close>) and does things in order:
  it calls state setters, the browser (\<open>confirm\<close>, \<open>alert\<close>, \<open>localStorage\<close>), the
  router and the services of \<open>services/demo.ts\<close>. A handler is modelled as the list of
  what it does, in the order it does it. What an awaited service call came to is an
  argument: it resolved with a value, or it rejected with an error whose \<open>message\<close> may be
  missing.
\<close>

datatype 'a outcome = Resolved 'a | Rejected "string option"

subsection \<open>\<open>components/demo-form.tsx\<close>\<close>

definition DEMO_STORAGE_KEY :: string where
  "DEMO_STORAGE_KEY = ''pending_demo_request''"

text \<open>The object written to \<open>localStorage\<close> (lines 119 to 123).\<close>

record saved_request =
  url :: string
  desc :: string
  autoSubmit :: bool

text \<open>\<open>interface CreateDemoRequest\<close> of \<open>services/demo.ts\<close> (lines 18 to 22).\<close>

record CreateDemoRequest =
  product_url :: string
  description :: "string option"
  email :: "string option"

datatype form_action =
    SetError string
  | SetIsSubmitting bool
  | LocalStorage_setItem string saved_request
  | LocalStorage_removeItem string
  | OnAuthRequired
  | CreateDemo CreateDemoRequest
  | Router_push string

text \<open>
  \<open>validateUrl\<close> (lines 95 to 102): \<open>true\<close> when \<open>new URL(url)\<close> returns, \<open>false\<close>
  when it throws. The constructor is the platform's, not the repository's: it is the
  argument \<open>new_URL\<close>, with \<open>None\<close> for a throw.
\<close>

definition validateUrl :: "(string \<Rightarrow> 'url option) \<Rightarrow> string \<Rightarrow> bool" where
  "validateUrl new_URL u = (case new_URL u of Some _ \<Rightarrow> True | None \<Rightarrow> False)"

text \<open>JavaScript's \<open>v || dflt\<close> on a string that may be missing: the empty string is falsy.\<close>

definition or_default :: "string option \<Rightarrow> string \<Rightarrow> string" where
  "or_default v dflt = (case v of None \<Rightarrow> dflt | Some m \<Rightarrow> if m = [] then dflt else m)"

text \<open>
  \<open>handleSubmit\<close> (lines 104 to 149). \<open>!productUrl\<close> holds of the empty string.
  \<open>created\<close> is what \<open>await createDemo(...)\<close> came to; the request carries no
  \<open>email\<close>.
\<close>

definition handleSubmit ::
  "(string \<Rightarrow> 'url option) \<Rightarrow> 'user option \<Rightarrow> string \<Rightarrow> string \<Rightarrow> 'demo outcome
     \<Rightarrow> form_action list" where
  "handleSubmit new_URL user productUrl descr created =
     (if productUrl = [] then [SetError ''Please enter a product URL'']
      else if \<not> validateUrl new_URL productUrl
        then [SetError ''Please enter a valid URL (e.g., https://example.com)'']
      else (case user of
          None \<Rightarrow>
            [LocalStorage_setItem DEMO_STORAGE_KEY
               \<lparr>url = productUrl, desc = descr, autoSubmit = True\<rparr>,
             OnAuthRequired]
        | Some _ \<Rightarrow>
            [SetIsSubmitting True, SetError [],
             CreateDemo \<lparr>product_url = productUrl,
                         description = (if descr = [] then None else Some descr),
                         email = None\<rparr>]
            @ (case created of
                 Resolved demo \<Rightarrow>
                   [LocalStorage_removeItem DEMO_STORAGE_KEY, Router_push ''/dashboard'']
               | Rejected msg \<Rightarrow>
                   [SetError (or_default msg ''Failed to create demo. Please try again.'')])
            @ [SetIsSubmitting False]))"

text \<open>Whether a run of the handler calls \<open>createDemo\<close>.\<close>

definition calls_createDemo :: "form_action list \<Rightarrow> bool" where
  "calls_createDemo acts = list_ex (\<lambda>a. case a of CreateDemo _ \<Rightarrow> True | _ \<Rightarrow> False) acts"

subsection \<open>\<open>app/dashboard/page.tsx\<close>\<close>

text \<open>
  \<open>interface Demo\<close> of \<open>services/demo.ts\<close> (lines 5 to 16), each field with the prefix
  \<open>demo_\<close>. The status is one of the seven literals of the union type, the statuses of
  the job.
\<close>

record Demo =
  demo_id :: string
  demo_user_id :: string
  demo_product_url :: string
  demo_description :: "string option"
  demo_status :: job_status
  demo_long_video_url :: "string option"
  demo_short_video_urls :: "string list"
  demo_error_message :: "string option"
  demo_created_at :: string
  demo_updated_at :: string

datatype dashboard_action =
    Confirm string
  | SetDeletingId "string option"
  | DeleteDemo string
  | SetDemos "Demo list"
  | Alert string

text \<open>
  \<open>handleDelete\<close> (lines 48 to 60). \<open>demos\<close> is the list the closure captured,
  \<open>confirmed\<close> the answer of \<open>confirm\<close>, \<open>deleted\<close> what \<open>await deleteDemo(demoId)\<close>
  came to. String concatenation prints a missing \<open>message\<close> as \<open>undefined\<close>.
\<close>

definition handleDelete ::
  "Demo list \<Rightarrow> bool \<Rightarrow> unit outcome \<Rightarrow> string \<Rightarrow> dashboard_action list" where
  "handleDelete demos confirmed deleted demoId =
     Confirm ''Are you sure you want to delete this demo?'' #
     (if \<not> confirmed then []
      else [SetDeletingId (Some demoId), DeleteDemo demoId]
           @ (case deleted of
                Resolved _ \<Rightarrow> [SetDemos (filter (\<lambda>d. demo_id d \<noteq> demoId) demos)]
              | Rejected msg \<Rightarrow>
                  [Alert (''Failed to delete demo: ''
                          @ (case msg of None \<Rightarrow> ''undefined'' | Some m \<Rightarrow> m))])
           @ [SetDeletingId None])"

text \<open>The component's state (lines 14 to 18) and what each action does to it.\<close>

record dashboard_state =
  demos :: "Demo list"
  loading :: bool
  error :: string
  deletingId :: "string option"
  showUserMenu :: bool

fun dashboard_apply :: "dashboard_action \<Rightarrow> dashboard_state \<Rightarrow> dashboard_state" where
  "dashboard_apply (SetDeletingId v) st = st\<lparr>deletingId := v\<rparr>"
| "dashboard_apply (SetDemos ds) st = st\<lparr>demos := ds\<rparr>"
| "dashboard_apply (Confirm _) st = st"
| "dashboard_apply (DeleteDemo _) st = st"
| "dashboard_apply (Alert _) st = st"

definition dashboard_after :: "dashboard_action list \<Rightarrow> dashboard_state \<Rightarrow> dashboard_state" where
  "dashboard_after acts st = fold dashboard_apply acts st"

text \<open>Whether a run of the handler sets the list of demos.\<close>

definition sets_demos :: "dashboard_action list \<Rightarrow> bool" where
  "sets_demos acts = list_ex (\<lambda>a. case a of SetDemos _ \<Rightarrow> True | _ \<Rightarrow> False) acts"

section \<open>Sample values\<close>

text \<open>
  A row of the queue with the given id, status, attempts and creation time, at most three
  attempts, never started.
\<close>

definition example_task :: "uuid \<Rightarrow> string \<Rightarrow> int4 \<Rightarrow> timestamptz \<Rightarrow> task" where
  "example_task i st a c =
     \<lparr> task_id = i, task_type = ''process_demo'', payload = ''{}'', status = st,
       attempts = Some a, max_attempts = Some 3, error_message = None,
       created_at = Some c, started_at = None, completed_at = None \<rparr>"

text \<open>
  A stand-in for the platform's URL constructor, for the examples: it accepts the strings
  that start with \<open>https://\<close> and go on.
\<close>

definition sample_URL :: "string \<Rightarrow> string option" where
  "sample_URL u = (if take 8 u = ''https://'' \<and> 8 < length u then Some u else None)"

text \<open>A dashboard showing two demos.\<close>

definition sample_demo :: "string \<Rightarrow> Demo" where
  "sample_demo i =
     \<lparr> demo_id = i, demo_user_id = ''u1'', demo_product_url = ''https://example.com'',
       demo_description = None, demo_status = Completed, demo_long_video_url = None,
       demo_short_video_urls = [], demo_error_message = None,
       demo_created_at = ''2024-01-01T00:00:00Z'', demo_updated_at = ''2024-01-01T00:00:00Z'' \<rparr>"

definition sample_dashboard :: dashboard_state where
  "sample_dashboard =
     \<lparr> demos = [sample_demo ''a'', sample_demo ''b''], loading = False, error = [],
       deletingId = None, showUserMenu = False \<rparr>"

section \<open>Properties of the task queue\<close>

subsection \<open>The order of creation and the row selected\<close>

lemma created_le_refl: "created_le a a"
  by (cases a) auto

lemma created_le_total: "created_le a b \<or> created_le b a"
  by (cases a; cases b) auto

lemma created_le_trans: "created_le a b \<Longrightarrow> created_le b c \<Longrightarrow> created_le a c"
  by (cases a; cases b; cases c) auto

lemma oldest_None_iff: "oldest rs = None \<longleftrightarrow> rs = []"
  by (induction rs) (auto split: option.splits)

lemma oldest_in_set: "oldest rs = Some r \<Longrightarrow> r \<in> set rs"
  by (induction rs arbitrary: r) (auto split: option.splits if_splits)

lemma oldest_least: "oldest rs = Some r \<Longrightarrow> x \<in> set rs \<Longrightarrow> created_le (created_at r) (created_at x)"
proof (induction rs arbitrary: r)
  case Nil
  then show ?case by simp
next
  case (Cons y ys)
  show ?case
  proof (cases "oldest ys")
    case None
    then have "ys = []" by (simp add: oldest_None_iff)
    with Cons.prems None show ?thesis by (simp add: created_le_refl)
  next
    case (Some r')
    note IH = Cons.IH [OF Some]
    show ?thesis
    proof (cases "created_le (created_at y) (created_at r')")
      case True
      with Some Cons.prems have r: "r = y" by simp
      from Cons.prems(2) consider "x = y" | "x \<in> set ys" by auto
      then show ?thesis
      proof cases
        case 1
        with r show ?thesis by (simp add: created_le_refl)
      next
        case 2
        from IH [OF 2] True r show ?thesis by (blast intro: created_le_trans)
      qed
    next
      case False
      with Some Cons.prems have r: "r = r'" by simp
      from False have le: "created_le (created_at r') (created_at y)"
        using created_le_total by blast
      from Cons.prems(2) consider "x = y" | "x \<in> set ys" by auto
      then show ?thesis
      proof cases
        case 1
        with r le show ?thesis by simp
      next
        case 2
        from IH [OF 2] r show ?thesis by simp
      qed
    qed
  qed
qed

lemma select_next_None_iff:
  "select_next locked tbl = None \<longleftrightarrow> (\<forall>r\<in>set tbl. \<not> (claimable r \<and> task_id r \<notin> locked))"
  by (auto simp: select_next_def oldest_None_iff filter_empty_conv)

lemma select_next_Some:
  assumes "select_next locked tbl = Some t"
  shows "t \<in> set tbl" "claimable t" "task_id t \<notin> locked"
    "x \<in> set tbl \<Longrightarrow> claimable x \<Longrightarrow> task_id x \<notin> locked \<Longrightarrow> created_le (created_at t) (created_at x)"
proof -
  from assms have "t \<in> set (filter (\<lambda>r. claimable r \<and> task_id r \<notin> locked) tbl)"
    unfolding select_next_def by (rule oldest_in_set)
  then show "t \<in> set tbl" "claimable t" "task_id t \<notin> locked" by auto
next
  assume "x \<in> set tbl" "claimable x" "task_id x \<notin> locked"
  then have "x \<in> set (filter (\<lambda>r. claimable r \<and> task_id r \<notin> locked) tbl)" by simp
  with assms show "created_le (created_at t) (created_at x)"
    unfolding select_next_def by (rule oldest_least)
qed

lemma sless_succ_no_overflow:
  fixes a m :: int4
  assumes "a <s m"
  shows "sint (a + 1) = sint a + 1"
proof -
  have "sint a < sint m" using assms by (simp add: word_sless_alt)
  moreover have "sint m < 2 ^ 31" using sint_lt [of m] by simp
  moreover have "- (2 ^ 31) \<le> sint a" using sint_ge [of a] by simp
  ultimately have "- (2 ^ 31) \<le> sint a + 1" "sint a + 1 < 2 ^ 31" by simp_all
  then show ?thesis
    by (simp add: sint_word_ariths signed_take_bit_int_eq_self)
qed

lemma update_where_id_nth:
  assumes "primary_key tbl" "k < length tbl"
  shows "update_where_id (task_id (tbl ! k)) now tbl = tbl[k := mark_processing now (tbl ! k)]"
proof (rule nth_equalityI)
  show "length (update_where_id (task_id (tbl ! k)) now tbl) = length (tbl[k := mark_processing now (tbl ! k)])"
    by (simp add: update_where_id_def)
next
  fix j assume "j < length (update_where_id (task_id (tbl ! k)) now tbl)"
  then have j: "j < length tbl" by (simp add: update_where_id_def)
  from assms j have "task_id (tbl ! j) = task_id (tbl ! k) \<longleftrightarrow> j = k"
    unfolding primary_key_def by (metis distinct_conv_nth length_map nth_map)
  with j assms(2) show "update_where_id (task_id (tbl ! k)) now tbl ! j = tbl[k := mark_processing now (tbl ! k)] ! j"
    by (auto simp: update_where_id_def nth_list_update)
qed

subsection \<open>What a call does to the table\<close>

lemma claim_next_task_None:
  "select_next locked tbl = None \<Longrightarrow> claim_next_task locked now tbl = (tbl, None)"
  by (simp add: claim_next_task_def)

lemma claim_next_task_Some:
  "select_next locked tbl = Some t \<Longrightarrow>
   claim_next_task locked now tbl = (update_where_id (task_id t) now tbl, Some t)"
  by (simp add: claim_next_task_def)

lemma task_id_mark_processing [simp]: "task_id (mark_processing now r) = task_id r"
  by (simp add: mark_processing_def)

lemma map_task_id_update_where_id [simp]:
  "map task_id (update_where_id i now tbl) = map task_id tbl"
  by (simp add: update_where_id_def)

lemma primary_key_update_where_id:
  "primary_key tbl \<Longrightarrow> primary_key (update_where_id i now tbl)"
  by (simp add: primary_key_def)

lemma primary_key_same_id:
  "primary_key tbl \<Longrightarrow> r \<in> set tbl \<Longrightarrow> t \<in> set tbl \<Longrightarrow> task_id r = task_id t \<Longrightarrow> r = t"
  unfolding primary_key_def by (meson distinct_map inj_onD)

lemma update_where_id_other:
  "r \<in> set tbl \<Longrightarrow> task_id r \<noteq> i \<Longrightarrow> r \<in> set (update_where_id i now tbl)"
  by (force simp: update_where_id_def)

text \<open>
  A row that is not pending stays in the table as it is, and is not the row returned.
\<close>

lemma claim_next_task_keeps:
  assumes pk: "primary_key tbl" and r: "r \<in> set tbl" "status r \<noteq> ''pending''"
  shows "primary_key (fst (claim_next_task locked now tbl))"
    and "r \<in> set (fst (claim_next_task locked now tbl))"
    and "snd (claim_next_task locked now tbl) = Some t \<Longrightarrow> task_id t \<noteq> task_id r"
proof -
  show "primary_key (fst (claim_next_task locked now tbl))"
    using pk by (cases "select_next locked tbl")
      (simp_all add: claim_next_task_def primary_key_update_where_id)
next
  show "r \<in> set (fst (claim_next_task locked now tbl))"
  proof (cases "select_next locked tbl")
    case None
    with r(1) show ?thesis by (simp add: claim_next_task_def)
  next
    case (Some t')
    note t' = select_next_Some(1,2) [OF Some]
    from t'(2) r(2) have "t' \<noteq> r" by (auto simp: claimable_def)
    with pk r(1) t'(1) have "task_id r \<noteq> task_id t'"
      using primary_key_same_id by blast
    with r(1) Some show ?thesis
      by (simp add: claim_next_task_def update_where_id_other)
  qed
next
  assume res: "snd (claim_next_task locked now tbl) = Some t"
  then have sel: "select_next locked tbl = Some t"
    by (cases "select_next locked tbl") (simp_all add: claim_next_task_def)
  note t = select_next_Some(1,2) [OF sel]
  from t(2) r(2) have "t \<noteq> r" by (auto simp: claimable_def)
  with pk r(1) t(1) show "task_id t \<noteq> task_id r"
    using primary_key_same_id by blast
qed

subsection \<open>Calls made one after the other\<close>

text \<open>
  A call leaves no row pending under the id it returns, and a call never makes a row
  pending. So calls made one after the other never return the same task twice.
\<close>

lemma none_pending_claim:
  assumes "none_pending i tbl"
  shows "none_pending i (fst (claim_next_task locked now tbl))"
    and "snd (claim_next_task locked now tbl) = Some t \<Longrightarrow> task_id t \<noteq> i"
proof -
  show "none_pending i (fst (claim_next_task locked now tbl))"
    using assms
    by (cases "select_next locked tbl")
       (auto simp: claim_next_task_def none_pending_def list_all_iff update_where_id_def
          mark_processing_def)
next
  assume "snd (claim_next_task locked now tbl) = Some t"
  then have sel: "select_next locked tbl = Some t"
    by (cases "select_next locked tbl") (simp_all add: claim_next_task_def)
  from select_next_Some(1,2) [OF sel] assms show "task_id t \<noteq> i"
    by (auto simp: none_pending_def list_all_iff claimable_def)
qed

lemma claimed_none_pending:
  assumes "snd (claim_next_task locked now tbl) = Some t"
  shows "none_pending (task_id t) (fst (claim_next_task locked now tbl))"
proof -
  from assms have sel: "select_next locked tbl = Some t"
    by (cases "select_next locked tbl") (simp_all add: claim_next_task_def)
  then show ?thesis
    by (auto simp: claim_next_task_def none_pending_def list_all_iff update_where_id_def
          mark_processing_def)
qed

lemma claim_calls_Cons:
  "fst (claim_calls ((locked, now) # cs) tbl) =
      fst (claim_calls cs (fst (claim_next_task locked now tbl)))"
  "snd (claim_calls ((locked, now) # cs) tbl) =
      snd (claim_next_task locked now tbl)
        # snd (claim_calls cs (fst (claim_next_task locked now tbl)))"
  by (simp_all split: prod.splits)

lemma none_pending_claim_calls:
  "none_pending i tbl \<Longrightarrow> i \<notin> task_id ` set (returned (snd (claim_calls cs tbl)))"
proof (induction cs arbitrary: tbl)
  case Nil
  then show ?case by simp
next
  case (Cons c cs)
  obtain locked now where c: "c = (locked, now)" by (cases c)
  note step = none_pending_claim [OF Cons.prems, of locked now]
  note IH = Cons.IH [OF step(1)]
  show ?case
  proof (cases "snd (claim_next_task locked now tbl)")
    case None
    with IH show ?thesis by (simp add: c claim_calls_Cons del: claim_calls.simps)
  next
    case (Some t)
    with IH step(2) [OF Some] show ?thesis by (simp add: c claim_calls_Cons del: claim_calls.simps)
  qed
qed

lemma claim_calls_never_twice:
  "distinct (map task_id (returned (snd (claim_calls cs tbl))))"
proof (induction cs arbitrary: tbl)
  case Nil
  then show ?case by simp
next
  case (Cons c cs)
  obtain locked now where c: "c = (locked, now)" by (cases c)
  show ?case
  proof (cases "snd (claim_next_task locked now tbl)")
    case None
    with Cons.IH show ?thesis by (simp add: c claim_calls_Cons del: claim_calls.simps)
  next
    case (Some t)
    from none_pending_claim_calls [OF claimed_none_pending [OF Some]] Cons.IH Some
    show ?thesis by (simp add: c claim_calls_Cons del: claim_calls.simps)
  qed
qed

subsection \<open>Claim C1: the oldest claimable task is claimed\<close>

text \<open>
  Claim C1, as the code has it by design. On a table with unique ids that holds a pending
  task with \<open>attempts < max_attempts\<close> which no other transaction has locked, a call
  claims such a task \<open>t\<close>, and no other such task was created before it (\<open>NULL\<close>
  creation times last). The table passes from its state before the call to its state
  after it in one step, in which exactly the row of \<open>t\<close> changes: its status becomes
  \<open>processing\<close>, its \<open>started_at\<close> the time of the call, its \<open>attempts\<close> one more
  (the 32-bit addition does not overflow). The call returns that task: the value returned
  has the id of \<open>t\<close> and agrees with the claimed row on every column that the
  \<open>UPDATE\<close> does not write. What the value returned shows in the three columns that the
  \<open>UPDATE\<close> writes is not part of this statement.
\<close>

theorem claim_next_task_claims_oldest:
  assumes pk: "primary_key tbl"
    and r0: "r0 \<in> set tbl" "claimable r0" "task_id r0 \<notin> locked"
  shows "\<exists>t a k r.
      k < length tbl \<and> tbl ! k = t
    \<and> status t = ''pending'' \<and> attempts t = Some a \<and> attempts_left t \<and> task_id t \<notin> locked
    \<and> (\<forall>x\<in>set tbl. claimable x \<and> task_id x \<notin> locked
          \<longrightarrow> created_le (created_at t) (created_at x))
    \<and> fst (claim_next_task locked now tbl) =
        tbl[k := t\<lparr>status := ''processing'', started_at := Some now, attempts := Some (a + 1)\<rparr>]
    \<and> sint (a + 1) = sint a + 1
    \<and> snd (claim_next_task locked now tbl) = Some r
    \<and> task_id r = task_id t \<and> task_type r = task_type t \<and> payload r = payload t
    \<and> max_attempts r = max_attempts t \<and> error_message r = error_message t
    \<and> created_at r = created_at t \<and> completed_at r = completed_at t"
proof -
  from r0 have "select_next locked tbl \<noteq> None"
    by (auto simp: select_next_None_iff)
  then obtain t where sel: "select_next locked tbl = Some t" by blast
  note t = select_next_Some [OF sel]
  from t(1) obtain k where k: "k < length tbl" "tbl ! k = t"
    by (auto simp: in_set_conv_nth)
  from t(2) have st: "status t = ''pending''" and al: "attempts_left t"
    by (simp_all add: claimable_def)
  from al obtain a m where a: "attempts t = Some a" "max_attempts t = Some m" "a <s m"
    by (auto simp: attempts_left_def split: option.splits)
  have upd: "update_where_id (task_id t) now tbl = tbl[k := mark_processing now t]"
    using update_where_id_nth [OF pk k(1), of now] k(2) by simp
  have mp: "mark_processing now t =
      t\<lparr>status := ''processing'', started_at := Some now, attempts := Some (a + 1)\<rparr>"
    by (simp add: mark_processing_def a(1))
  have res: "claim_next_task locked now tbl = (tbl[k := mark_processing now t], Some t)"
    using claim_next_task_Some [OF sel, of now] upd by simp
  have least: "\<forall>x\<in>set tbl. claimable x \<and> task_id x \<notin> locked
          \<longrightarrow> created_le (created_at t) (created_at x)"
    using t(4) by blast
  have ov: "sint (a + 1) = sint a + 1"
    using a(3) by (rule sless_succ_no_overflow)
  show ?thesis
    using res k st a(1) al t(3) least mp ov by auto
qed

text \<open>
  Two pending tasks, created at 10 and at 20, nobody else on the table, the call at 100.
\<close>

theorem claim_next_task_claims_oldest_witness:
  "primary_key [example_task 1 ''pending'' 0 10, example_task 2 ''pending'' 0 20]
   \<and> claimable (example_task 1 ''pending'' 0 10)
   \<and> (\<exists>t a k r.
      k < length [example_task 1 ''pending'' 0 10, example_task 2 ''pending'' 0 20]
    \<and> [example_task 1 ''pending'' 0 10, example_task 2 ''pending'' 0 20] ! k = t
    \<and> status t = ''pending'' \<and> attempts t = Some a \<and> attempts_left t \<and> task_id t \<notin> {}
    \<and> (\<forall>x\<in>set [example_task 1 ''pending'' 0 10, example_task 2 ''pending'' 0 20].
          claimable x \<and> task_id x \<notin> {} \<longrightarrow> created_le (created_at t) (created_at x))
    \<and> fst (claim_next_task {} 100
             [example_task 1 ''pending'' 0 10, example_task 2 ''pending'' 0 20]) =
        [example_task 1 ''pending'' 0 10, example_task 2 ''pending'' 0 20]
          [k := t\<lparr>status := ''processing'', started_at := Some 100, attempts := Some (a + 1)\<rparr>]
    \<and> sint (a + 1) = sint a + 1
    \<and> snd (claim_next_task {} 100
             [example_task 1 ''pending'' 0 10, example_task 2 ''pending'' 0 20]) = Some r
    \<and> task_id r = task_id t \<and> task_type r = task_type t \<and> payload r = payload t
    \<and> max_attempts r = max_attempts t \<and> error_message r = error_message t
    \<and> created_at r = created_at t \<and> completed_at r = completed_at t)"
proof -
  have pk: "primary_key [example_task 1 ''pending'' 0 10, example_task 2 ''pending'' 0 20]"
    by (simp add: primary_key_def example_task_def)
  have cl: "claimable (example_task 1 ''pending'' 0 10)"
    by (simp add: claimable_def attempts_left_def example_task_def word_sless_alt)
  have mem: "example_task 1 ''pending'' 0 10
      \<in> set [example_task 1 ''pending'' 0 10, example_task 2 ''pending'' 0 20]"
    by simp
  have nl: "task_id (example_task 1 ''pending'' 0 10) \<notin> {}" by simp
  from claim_next_task_claims_oldest [OF pk mem cl nl, of 100] pk cl
  show ?thesis by blast
qed

text \<open>
  Claim C1 as it is written does not hold. It has every call claim the oldest pending task
  with attempts left: while another transaction holds the row of task 1 locked, the call
  returns task 2, created later, and leaves task 1 pending; \<open>SKIP LOCKED\<close> says so. And
  it has the returned value show the claimed state: with nobody else on the table the call
  returns task 1 with status \<open>pending\<close>, \<open>attempts\<close> 0 and no \<open>started_at\<close>, while
  the row stored for task 1 has status \<open>processing\<close>, \<open>attempts\<close> 1 and
  \<open>started_at\<close> 100. The function returns the variable that the \<open>SELECT\<close> filled
  before the \<open>UPDATE\<close>; nothing in the schema says that this is meant.
\<close>

theorem claim_next_task_returns_row_as_read:
  "map_option status (snd (claim_next_task {} 100
      [example_task 1 ''pending'' 0 10, example_task 2 ''pending'' 0 20])) = Some ''pending''
   \<and> map_option attempts (snd (claim_next_task {} 100
      [example_task 1 ''pending'' 0 10, example_task 2 ''pending'' 0 20])) = Some (Some 0)
   \<and> map_option started_at (snd (claim_next_task {} 100
      [example_task 1 ''pending'' 0 10, example_task 2 ''pending'' 0 20])) = Some None
   \<and> map status (fst (claim_next_task {} 100
      [example_task 1 ''pending'' 0 10, example_task 2 ''pending'' 0 20]))
       = [''processing'', ''pending'']
   \<and> map attempts (fst (claim_next_task {} 100
      [example_task 1 ''pending'' 0 10, example_task 2 ''pending'' 0 20])) = [Some 1, Some 0]
   \<and> map started_at (fst (claim_next_task {} 100
      [example_task 1 ''pending'' 0 10, example_task 2 ''pending'' 0 20])) = [Some 100, None]
   \<and> map_option task_id (snd (claim_next_task {1} 100
      [example_task 1 ''pending'' 0 10, example_task 2 ''pending'' 0 20])) = Some 2
   \<and> map status (fst (claim_next_task {1} 100
      [example_task 1 ''pending'' 0 10, example_task 2 ''pending'' 0 20]))
       = [''pending'', ''processing'']"
  by (simp add: claim_next_task_def select_next_def claimable_def attempts_left_def
        example_task_def word_sless_alt update_where_id_def mark_processing_def)

subsection \<open>Claim C2: two concurrent callers\<close>



subsection \<open>Claim C4: a failed task out of attempts is never claimed again\<close>

text \<open>
  Claim C4. Let a table with unique ids hold a task with status \<open>failed\<close> and
  \<open>attempts >= max_attempts\<close>. However many calls of \<open>claim_next_task\<close> follow, with
  whatever lock sets and clock readings, none of them returns a task with that id, and the
  task's row stays in the table as it is.
\<close>

theorem failed_task_never_claimed_again:
  assumes "primary_key tbl" and "r \<in> set tbl" and "status r = ''failed''"
    and "attempts r = Some a" and "max_attempts r = Some m" and "m \<le>s a"
  shows "r \<in> set (fst (claim_calls cs tbl))
     \<and> (\<forall>t. Some t \<in> set (snd (claim_calls cs tbl)) \<longrightarrow> task_id t \<noteq> task_id r)"
  using assms(1,2)
proof (induction cs arbitrary: tbl)
  case Nil
  then show ?case by simp
next
  case (Cons c cs)
  obtain locked now where c: "c = (locked, now)" by (cases c)
  have np: "status r \<noteq> ''pending''" using assms(3) by simp
  note keep = claim_next_task_keeps [OF Cons.prems(1) Cons.prems(2) np, of locked now]
  note IH = Cons.IH [OF keep(1) keep(2)]
  have fst_eq: "fst (claim_calls (c # cs) tbl) =
      fst (claim_calls cs (fst (claim_next_task locked now tbl)))"
    by (simp add: c split: prod.splits)
  have snd_eq: "snd (claim_calls (c # cs) tbl) =
      snd (claim_next_task locked now tbl)
        # snd (claim_calls cs (fst (claim_next_task locked now tbl)))"
    by (simp add: c split: prod.splits)
  show ?case
    unfolding fst_eq snd_eq using IH keep(3) by auto
qed

text \<open>
  Task 1 has failed after three attempts of three, task 2 is pending; two calls follow.
\<close>

theorem failed_task_never_claimed_again_witness:
  "primary_key [example_task 1 ''failed'' 3 10, example_task 2 ''pending'' 0 20]
   \<and> status (example_task 1 ''failed'' 3 10) = ''failed''
   \<and> (3 :: int4) \<le>s 3
   \<and> example_task 1 ''failed'' 3 10
        \<in> set (fst (claim_calls [({}, 100), ({}, 200)]
                   [example_task 1 ''failed'' 3 10, example_task 2 ''pending'' 0 20]))
   \<and> \<not> (\<exists>t. Some t \<in> set (snd (claim_calls [({}, 100), ({}, 200)]
                   [example_task 1 ''failed'' 3 10, example_task 2 ''pending'' 0 20]))
        \<and> task_id t = task_id (example_task 1 ''failed'' 3 10))
   \<and> snd (claim_calls [({}, 100), ({}, 200)]
          [example_task 1 ''failed'' 3 10, example_task 2 ''pending'' 0 20])
       = [Some (example_task 2 ''pending'' 0 20), None]"
proof -
  have pk: "primary_key [example_task 1 ''failed'' 3 10, example_task 2 ''pending'' 0 20]"
    by (simp add: primary_key_def example_task_def)
  have le: "(3 :: int4) \<le>s 3" by simp
  have mem: "example_task 1 ''failed'' 3 10
      \<in> set [example_task 1 ''failed'' 3 10, example_task 2 ''pending'' 0 20]"
    by simp
  have st: "status (example_task 1 ''failed'' 3 10) = ''failed''"
    and a: "attempts (example_task 1 ''failed'' 3 10) = Some 3"
    and m: "max_attempts (example_task 1 ''failed'' 3 10) = Some 3"
    by (simp_all add: example_task_def)
  have calls: "snd (claim_calls [({}, 100), ({}, 200)]
          [example_task 1 ''failed'' 3 10, example_task 2 ''pending'' 0 20])
       = [Some (example_task 2 ''pending'' 0 20), None]"
    by (simp add: claim_next_task_def select_next_def claimable_def attempts_left_def
          example_task_def word_sless_alt update_where_id_def mark_processing_def)
  note inst = failed_task_never_claimed_again [OF pk mem st a m le, of "[({}, 100), ({}, 200)]"]
  from inst have kept: "example_task 1 ''failed'' 3 10
        \<in> set (fst (claim_calls [({}, 100), ({}, 200)]
                   [example_task 1 ''failed'' 3 10, example_task 2 ''pending'' 0 20]))"
    by (rule conjunct1)
  from inst have never: "\<not> (\<exists>t. Some t \<in> set (snd (claim_calls [({}, 100), ({}, 200)]
                   [example_task 1 ''failed'' 3 10, example_task 2 ''pending'' 0 20]))
        \<and> task_id t = task_id (example_task 1 ''failed'' 3 10))"
    by blast
  from pk st le kept never calls show ?thesis by (intro conjI)
qed

subsection \<open>Claim C6: nothing claimable, nothing returned\<close>

text \<open>
  Claim C6. When no task of the table is pending with \<open>attempts < max_attempts\<close>, a
  call returns no task. It does so whatever rows other transactions hold locked: the call
  is a total function of the table, the lock set and the clock, and a locked row is
  skipped, never waited for.
\<close>

theorem claim_next_task_nothing_claimable:
  assumes "\<forall>r\<in>set tbl. \<not> claimable r"
  shows "snd (claim_next_task locked now tbl) = None"
proof -
  from assms have "select_next locked tbl = None"
    by (simp add: select_next_None_iff)
  then show ?thesis by (simp add: claim_next_task_None)
qed

text \<open>Task 1 is pending but out of attempts, task 2 has failed.\<close>

theorem claim_next_task_nothing_claimable_witness:
  "\<not> claimable (example_task 1 ''pending'' 3 10)
   \<and> \<not> claimable (example_task 2 ''failed'' 0 20)
   \<and> snd (claim_next_task {} 100
            [example_task 1 ''pending'' 3 10, example_task 2 ''failed'' 0 20]) = None"
proof -
  have c: "\<not> claimable (example_task 1 ''pending'' 3 10)"
    "\<not> claimable (example_task 2 ''failed'' 0 20)"
    by (simp_all add: claimable_def attempts_left_def example_task_def word_sless_alt)
  then have h: "\<forall>r\<in>set [example_task 1 ''pending'' 3 10, example_task 2 ''failed'' 0 20].
      \<not> claimable r"
    by simp
  from c claim_next_task_nothing_claimable [OF h, of "{}" 100] show ?thesis by (intro conjI)
qed

subsection \<open>Claim C7: the defaults of a new task\<close>

text \<open>
  Claim C7, as the schema has it. A task is added to the table with \<open>attempts\<close> 0 when
  its insert does not name \<open>attempts\<close>, and with \<open>max_attempts\<close> 3 when its insert
  does not name \<open>max_attempts\<close>.
\<close>

theorem insert_task_defaults:
  assumes "insert_task fresh now i tbl = Inr tbl'"
  shows "\<exists>r. tbl' = tbl @ [r]
           \<and> (ins_attempts i = Omitted \<longrightarrow> attempts r = Some 0)
           \<and> (ins_max_attempts i = Omitted \<longrightarrow> max_attempts r = Some 3)"
proof -
  from assms obtain r where r: "new_task fresh now i = Inr r" "tbl' = tbl @ [r]"
    by (auto simp: insert_task_def split: sum.splits if_splits)
  from r(1) have "ins_attempts i = Omitted \<longrightarrow> attempts r = Some 0"
    "ins_max_attempts i = Omitted \<longrightarrow> max_attempts r = Some 3"
    by (auto simp: new_task_def split: sum.splits)
  with r(2) show ?thesis by blast
qed

text \<open>The first task of an empty queue, inserted with its type and payload only.\<close>

theorem insert_task_defaults_witness:
  "ins_attempts (enqueue_columns ''process_demo'' ''{}'') = Omitted
   \<and> ins_max_attempts (enqueue_columns ''process_demo'' ''{}'') = Omitted
   \<and> (\<exists>r. insert_task 7 50 (enqueue_columns ''process_demo'' ''{}'') [] = Inr ([] @ [r])
         \<and> attempts r = Some 0 \<and> max_attempts r = Some 3)"
proof -
  obtain tbl' where i: "insert_task 7 50 (enqueue_columns ''process_demo'' ''{}'') [] = Inr tbl'"
    by (simp add: insert_task_def new_task_def varchar_def enqueue_columns_def)
  have a: "ins_attempts (enqueue_columns ''process_demo'' ''{}'') = Omitted"
    and m: "ins_max_attempts (enqueue_columns ''process_demo'' ''{}'') = Omitted"
    by (simp_all add: enqueue_columns_def)
  from insert_task_defaults [OF i] i a m show ?thesis by auto
qed

text \<open>
  Claim C7 as it is written does not hold of every new task: \<open>attempts\<close> and
  \<open>max_attempts\<close> have a \<open>DEFAULT\<close> and no \<open>CHECK\<close>, so an insert that names them
  decides them. A task inserted with \<open>attempts\<close> 2 and \<open>max_attempts\<close> 5 starts with
  these.
\<close>

theorem insert_task_named_columns:
  "insert_task 7 50
     ((enqueue_columns ''process_demo'' ''{}'')
        \<lparr>ins_attempts := Given (Some 2), ins_max_attempts := Given (Some 5)\<rparr>) []
   = Inr [\<lparr> task_id = 7, task_type = ''process_demo'', payload = ''{}'',
            status = ''pending'', attempts = Some 2, max_attempts = Some 5,
            error_message = None, created_at = Some 50, started_at = None,
            completed_at = None \<rparr>]"
  by (simp add: insert_task_def new_task_def varchar_def enqueue_columns_def)

subsection \<open>Claim C8: no update without a selected row\<close>

text \<open>
  Claim C8. When no task of the table is pending with \<open>attempts < max_attempts\<close>, the
  table after the call is the table before it, row for row; and whenever the call returns
  no task (the \<open>SELECT\<close> found none, so the \<open>IF\<close> is not entered) the table is
  unchanged.
\<close>

theorem claim_next_task_frame:
  "((\<forall>r\<in>set tbl. \<not> claimable r) \<longrightarrow> fst (claim_next_task locked now tbl) = tbl)
   \<and> (snd (claim_next_task locked now tbl) = None
        \<longrightarrow> fst (claim_next_task locked now tbl) = tbl)"
proof (intro conjI impI)
  assume "\<forall>r\<in>set tbl. \<not> claimable r"
  then have "select_next locked tbl = None"
    by (simp add: select_next_None_iff)
  then show "fst (claim_next_task locked now tbl) = tbl"
    by (simp add: claim_next_task_None)
next
  assume "snd (claim_next_task locked now tbl) = None"
  then show "fst (claim_next_task locked now tbl) = tbl"
    by (cases "select_next locked tbl") (simp_all add: claim_next_task_def)
qed

theorem claim_next_task_frame_witness:
  "\<not> claimable (example_task 1 ''pending'' 3 10)
   \<and> \<not> claimable (example_task 2 ''failed'' 0 20)
   \<and> snd (claim_next_task {} 100
            [example_task 1 ''pending'' 3 10, example_task 2 ''failed'' 0 20]) = None
   \<and> fst (claim_next_task {} 100
            [example_task 1 ''pending'' 3 10, example_task 2 ''failed'' 0 20])
       = [example_task 1 ''pending'' 3 10, example_task 2 ''failed'' 0 20]"
proof -
  have c: "\<not> claimable (example_task 1 ''pending'' 3 10)"
    "\<not> claimable (example_task 2 ''failed'' 0 20)"
    by (simp_all add: claimable_def attempts_left_def example_task_def word_sless_alt)
  then have h: "\<forall>r\<in>set [example_task 1 ''pending'' 3 10, example_task 2 ''failed'' 0 20].
      \<not> claimable r"
    by simp
  have n: "snd (claim_next_task {} 100
      [example_task 1 ''pending'' 3 10, example_task 2 ''failed'' 0 20]) = None"
    by (simp add: claim_next_task_def select_next_def claimable_def attempts_left_def
          example_task_def word_sless_alt)
  have f: "fst (claim_next_task {} 100
             [example_task 1 ''pending'' 3 10, example_task 2 ''failed'' 0 20])
       = [example_task 1 ''pending'' 3 10, example_task 2 ''failed'' 0 20]"
    using claim_next_task_frame
      [of "[example_task 1 ''pending'' 3 10, example_task 2 ''failed'' 0 20]" "{}" 100] h
    by blast
  from c n f show ?thesis by (intro conjI)
qed

section \<open>Properties of the job state machine\<close>







subsection \<open>Claim C3: when the short videos are there\<close>




section \<open>Properties of the front end's handlers\<close>

subsection \<open>Claim C9: the form validates before it submits\<close>

text \<open>
  Claim C9. A run of \<open>handleSubmit\<close> calls \<open>createDemo\<close> only when \<open>productUrl\<close> is
  non-empty and \<open>validateUrl\<close> accepts it. When \<open>productUrl\<close> is empty or
  \<open>validateUrl\<close> rejects it, the run does one thing, which is to set a non-empty error
  message: it does not call \<open>createDemo\<close>.
\<close>

theorem handleSubmit_validates_before_createDemo:
  "(calls_createDemo (handleSubmit new_URL user productUrl descr created)
      \<longrightarrow> productUrl \<noteq> [] \<and> validateUrl new_URL productUrl)
   \<and> (productUrl = [] \<or> \<not> validateUrl new_URL productUrl
      \<longrightarrow> (\<exists>msg. msg \<noteq> [] \<and>
             handleSubmit new_URL user productUrl descr created = [SetError msg])
          \<and> \<not> calls_createDemo (handleSubmit new_URL user productUrl descr created))"
proof (cases "productUrl = [] \<or> \<not> validateUrl new_URL productUrl")
  case True
  then have "handleSubmit new_URL user productUrl descr created
        = [SetError ''Please enter a product URL'']
      \<or> handleSubmit new_URL user productUrl descr created
        = [SetError ''Please enter a valid URL (e.g., https://example.com)'']"
    by (auto simp: handleSubmit_def)
  then show ?thesis
    using True by (auto simp: calls_createDemo_def)
next
  case False
  then show ?thesis by simp
qed

text \<open>
  A signed-in user submits \<open>https://example.com\<close>, and then the text \<open>example\<close>.
\<close>

theorem handleSubmit_validates_before_createDemo_witness:
  "calls_createDemo
     (handleSubmit sample_URL (Some ''u1'') ''https://example.com'' [] (Resolved ()))
   \<and> ''https://example.com'' \<noteq> [] \<and> validateUrl sample_URL ''https://example.com''
   \<and> \<not> validateUrl sample_URL ''example''
   \<and> (\<exists>msg. msg \<noteq> [] \<and>
         handleSubmit sample_URL (Some ''u1'') ''example'' [] (Resolved ()) = [SetError msg])
   \<and> \<not> calls_createDemo (handleSubmit sample_URL (Some ''u1'') ''example'' [] (Resolved ()))"
proof -
  have c: "calls_createDemo
      (handleSubmit sample_URL (Some ''u1'') ''https://example.com'' [] (Resolved ()))"
    by (simp add: calls_createDemo_def handleSubmit_def validateUrl_def sample_URL_def)
  have v: "''https://example.com'' \<noteq> [] \<and> validateUrl sample_URL ''https://example.com''"
    using handleSubmit_validates_before_createDemo
      [of sample_URL "Some ''u1''" "''https://example.com''" "[]" "Resolved ()"] c
    by blast
  have n: "\<not> validateUrl sample_URL ''example''"
    by (simp add: validateUrl_def sample_URL_def)
  have e: "(\<exists>msg. msg \<noteq> [] \<and>
         handleSubmit sample_URL (Some ''u1'') ''example'' [] (Resolved ()) = [SetError msg])
     \<and> \<not> calls_createDemo (handleSubmit sample_URL (Some ''u1'') ''example'' [] (Resolved ()))"
    using handleSubmit_validates_before_createDemo
      [of sample_URL "Some ''u1''" "''example''" "[]" "Resolved ()"] n
    by blast
  from c v n e show ?thesis by blast
qed

subsection \<open>Claim C10: a demo leaves the list only after its deletion succeeded\<close>

text \<open>
  Claim C10. When \<open>deleteDemo\<close> rejects, a run of \<open>handleDelete\<close> does not set the list
  of demos, and the list in the state after the run is the list before it. When a run sets
  the list, the user confirmed, \<open>deleteDemo\<close> resolved, and the run is: ask, mark the
  demo as being deleted, call \<open>deleteDemo\<close>, set the list to the captured one without the
  demo, clear the mark; so the list is set after the call, and only then.
\<close>

theorem handleDelete_removes_only_after_success:
  "(deleted = Rejected msg \<longrightarrow>
       \<not> sets_demos (handleDelete (demos st) confirmed deleted demoId)
     \<and> demos (dashboard_after (handleDelete (demos st) confirmed deleted demoId) st) = demos st)
   \<and> (sets_demos (handleDelete (demos st) confirmed deleted demoId) \<longrightarrow>
       confirmed \<and> deleted = Resolved ()
     \<and> handleDelete (demos st) confirmed deleted demoId =
         [Confirm ''Are you sure you want to delete this demo?'', SetDeletingId (Some demoId),
          DeleteDemo demoId, SetDemos (filter (\<lambda>d. demo_id d \<noteq> demoId) (demos st)),
          SetDeletingId None]
     \<and> demos (dashboard_after (handleDelete (demos st) confirmed deleted demoId) st)
         = filter (\<lambda>d. demo_id d \<noteq> demoId) (demos st))"
proof (cases deleted)
  case (Resolved u)
  then show ?thesis
    by (cases confirmed) (simp_all add: handleDelete_def sets_demos_def dashboard_after_def)
next
  case (Rejected m)
  then show ?thesis
    by (cases confirmed) (simp_all add: handleDelete_def sets_demos_def dashboard_after_def)
qed

text \<open>
  The user confirms the deletion of demo \<open>a\<close>; the request fails, and then succeeds.
\<close>

theorem handleDelete_removes_only_after_success_witness:
  "\<not> sets_demos (handleDelete (demos sample_dashboard) True (Rejected (Some ''Demo not found'')) ''a'')
   \<and> demos (dashboard_after
        (handleDelete (demos sample_dashboard) True (Rejected (Some ''Demo not found'')) ''a'')
        sample_dashboard) = demos sample_dashboard
   \<and> sets_demos (handleDelete (demos sample_dashboard) True (Resolved ()) ''a'')
   \<and> demos (dashboard_after
        (handleDelete (demos sample_dashboard) True (Resolved ()) ''a'') sample_dashboard)
       = filter (\<lambda>d. demo_id d \<noteq> ''a'') (demos sample_dashboard)
   \<and> map demo_id (demos sample_dashboard) = [''a'', ''b'']
   \<and> map demo_id (filter (\<lambda>d. demo_id d \<noteq> ''a'') (demos sample_dashboard)) = [''b'']"
proof -
  have r: "\<not> sets_demos
        (handleDelete (demos sample_dashboard) True (Rejected (Some ''Demo not found'')) ''a'')
     \<and> demos (dashboard_after
        (handleDelete (demos sample_dashboard) True (Rejected (Some ''Demo not found'')) ''a'')
        sample_dashboard) = demos sample_dashboard"
    using handleDelete_removes_only_after_success
      [of "Rejected (Some ''Demo not found'')" "Some ''Demo not found''" sample_dashboard
          True "''a''"]
    by blast
  have s: "sets_demos (handleDelete (demos sample_dashboard) True (Resolved ()) ''a'')"
    by (simp add: sets_demos_def handleDelete_def)
  have a: "demos (dashboard_after
        (handleDelete (demos sample_dashboard) True (Resolved ()) ''a'') sample_dashboard)
       = filter (\<lambda>d. demo_id d \<noteq> ''a'') (demos sample_dashboard)"
    using handleDelete_removes_only_after_success
      [of "Resolved ()" None sample_dashboard True "''a''"] s
    by blast
  have l: "map demo_id (demos sample_dashboard) = [''a'', ''b'']"
    "map demo_id (filter (\<lambda>d. demo_id d \<noteq> ''a'') (demos sample_dashboard)) = [''b'']"
    by (simp_all add: sample_dashboard_def sample_demo_def)
  from r s a l show ?thesis by (intro conjI) blast+
qed

end
